theory Spec2Isabelle
  imports Complex_Main "HOL-Library.Sublist"
begin

section \<open>JavaScript strings\<close>

text \<open>
  A JavaScript string is a finite sequence of UTF-16 code units. A code unit is modelled
  by its number, so a string is a list of natural numbers; every JavaScript string is such
  a list, and the theorems below hold for all of them. \<open>js\<close> turns an ASCII literal into
  its code units.
\<close>

type_synonym jsstring = "nat list"

definition js :: "string \<Rightarrow> jsstring" where
  "js s = map of_char s"

text \<open>The line feed \<^verbatim>\<open>\n\<close>, the space, the double quote and the backtick.\<close>

definition nl :: jsstring where
  "nl = [10]"

definition sp :: jsstring where
  "sp = [32]"

definition dq :: jsstring where
  "dq = [34]"

definition backtick :: nat where
  "backtick = 96"

text \<open>
  The class matched by \<^verbatim>\<open>\s\<close> in a regular expression, which is also the class that
  \<^verbatim>\<open>String.prototype.trim\<close> removes: ECMAScript's WhiteSpace and LineTerminator
  (TAB, LF, VT, FF, CR, SP, NBSP, U+1680, U+2000 to U+200A, U+2028, U+2029, U+202F,
  U+205F, U+3000, U+FEFF).
\<close>

definition is_space :: "nat \<Rightarrow> bool" where
  "is_space u = (u = 9 \<or> u = 10 \<or> u = 11 \<or> u = 12 \<or> u = 13 \<or> u = 32 \<or> u = 160
     \<or> u = 5760 \<or> (8192 \<le> u \<and> u \<le> 8202) \<or> u = 8232 \<or> u = 8233 \<or> u = 8239
     \<or> u = 8287 \<or> u = 12288 \<or> u = 65279)"

text \<open>\<^verbatim>\<open>s.trim()\<close>: the white space at both ends is removed.\<close>

definition trim :: "jsstring \<Rightarrow> jsstring" where
  "trim s = rev (dropWhile is_space (rev (dropWhile is_space s)))"

text \<open>\<^verbatim>\<open>s.startsWith(p)\<close>.\<close>

definition startsWith :: "jsstring \<Rightarrow> jsstring \<Rightarrow> bool" where
  "startsWith s p = prefix p s"

text \<open>\<^verbatim>\<open>s.includes(p)\<close>: \<open>p\<close> occurs in \<open>s\<close> as a contiguous substring.\<close>

fun js_includes :: "jsstring \<Rightarrow> jsstring \<Rightarrow> bool" where
  "js_includes [] p = (p = [])"
| "js_includes (c # cs) p = (prefix p (c # cs) \<or> js_includes cs p)"

text \<open>
  \<^verbatim>\<open>s.replace(/pat/g, rep)\<close> for a regular expression that is a literal, non-empty
  string \<open>pat\<close>: the subject is scanned from the left; where \<open>pat\<close> begins the
  replacement is emitted and the scan resumes after the match, elsewhere the code unit is
  copied. (Both expressions of the source are such literals; an empty pattern does not
  occur and leaves the subject as it is here.)
\<close>

function replace_all :: "jsstring \<Rightarrow> jsstring \<Rightarrow> jsstring \<Rightarrow> jsstring" where
  "replace_all pat rep [] = []"
| "replace_all pat rep (c # cs) =
     (if pat \<noteq> [] \<and> prefix pat (c # cs)
      then rep @ replace_all pat rep (drop (length pat) (c # cs))
      else c # replace_all pat rep cs)"
  by pat_completeness auto
termination
  by (relation "measure (\<lambda>(pat, rep, s). length s)") (auto simp: neq_Nil_conv)

section \<open>The clean-up of the collaborator's timed document\<close>

text \<open>
  \<^verbatim>\<open>server.js\<close>, lines 79 to 82:
  \<^verbatim>\<open>
  vttContent = vttContent.replace(/```vtt\n/g, '').replace(/```/g, '').trim();
  if (!vttContent.startsWith('WEBVTT')) {
      vttContent = 'WEBVTT\n\n' + vttContent;
  }
  \<close>
\<close>

definition fence :: jsstring where
  "fence = [backtick, backtick, backtick]"

definition fence_vtt :: jsstring where
  "fence_vtt = fence @ js ''vtt'' @ nl"

definition WEBVTT :: jsstring where
  "WEBVTT = js ''WEBVTT''"

definition vttContent :: "jsstring \<Rightarrow> jsstring" where
  "vttContent raw =
     (let cleaned = trim (replace_all fence [] (replace_all fence_vtt [] raw))
      in if \<not> startsWith cleaned WEBVTT then WEBVTT @ nl @ nl @ cleaned else cleaned)"

section \<open>Arrays of strings\<close>

text \<open>
  \<^verbatim>\<open>Array.prototype.join(sep)\<close> as ECMAScript specifies it: the result \<open>R\<close>
  starts empty; for \<open>k\<close> from \<open>0\<close> to the length, the separator is appended
  when \<open>k > 0\<close> and then the element at index \<open>k\<close>.
\<close>

function join_loop :: "jsstring list \<Rightarrow> jsstring \<Rightarrow> nat \<Rightarrow> jsstring \<Rightarrow> jsstring" where
  "join_loop xs sep k R =
     (if k < length xs
      then join_loop xs sep (Suc k) ((if 0 < k then R @ sep else R) @ xs ! k)
      else R)"
  by pat_completeness auto
termination
  by (relation "measure (\<lambda>(xs, sep, k, R). length xs - k)") auto

declare join_loop.simps [simp del]

definition join :: "jsstring list \<Rightarrow> jsstring \<Rightarrow> jsstring" where
  "join xs sep = join_loop xs sep 0 []"

text \<open>\<^verbatim>\<open>xs.slice(a, b)\<close> for indices \<open>0 \<le> a \<le> b\<close>; an end past the array is clamped.\<close>

definition slice :: "'a list \<Rightarrow> nat \<Rightarrow> nat \<Rightarrow> 'a list" where
  "slice xs a b = take (b - a) (drop a xs)"

text \<open>
  \<^verbatim>\<open>s.split(/\s+/)\<close>: the subject is cut at every maximal run of white space.
  \<open>cur\<close> holds the code units since the last cut. A run at the very start or the very
  end leaves an empty string on that side, and the empty subject gives one empty string.
\<close>

function split_from :: "jsstring \<Rightarrow> jsstring \<Rightarrow> jsstring list" where
  "split_from cur [] = [cur]"
| "split_from cur (c # cs) =
     (if is_space c then cur # split_from [] (dropWhile is_space cs)
      else split_from (cur @ [c]) cs)"
  by pat_completeness auto
termination
  by (relation "measure (\<lambda>(cur, s). length s)")
     (auto simp: length_dropWhile_le less_Suc_eq_le)

definition split_ws :: "jsstring \<Rightarrow> jsstring list" where
  "split_ws s = split_from [] s"

section \<open>The cue synthesizer of \<^verbatim>\<open>/api/subtitles\<close>\<close>

record cue =
  cue_text :: jsstring
  cue_start :: int
  cue_end :: int

text \<open>
  The loop of lines 479 to 495:
  \<^verbatim>\<open>
  let wordIndex = 0;
  let timeOffset = 0;
  while (wordIndex < words.length) {
      const subtitleText = words.slice(wordIndex, wordIndex + 5).join(' ');
      if (subtitleText.trim() === '') { wordIndex += 5; continue; }
      subtitlesWithTimestamps.push({ text: subtitleText, start: timeOffset, end: timeOffset + 2 });
      wordIndex += 5;
      timeOffset += 2;
  }
  \<close>
  The state of the loop is \<open>wordIndex\<close>, \<open>timeOffset\<close> and the array built so far.
\<close>

function cue_loop :: "jsstring list \<Rightarrow> nat \<Rightarrow> int \<Rightarrow> cue list \<Rightarrow> cue list" where
  "cue_loop words wordIndex timeOffset subs =
     (if wordIndex < length words
      then (if trim (join (slice words wordIndex (wordIndex + 5)) sp) = []
            then cue_loop words (wordIndex + 5) timeOffset subs
            else cue_loop words (wordIndex + 5) (timeOffset + 2)
                   (subs @ [\<lparr>cue_text = join (slice words wordIndex (wordIndex + 5)) sp,
                             cue_start = timeOffset, cue_end = timeOffset + 2\<rparr>]))
      else subs)"
  by pat_completeness auto
termination
  by (relation "measure (\<lambda>(words, wordIndex, timeOffset, subs). length words - wordIndex)") auto

declare cue_loop.simps [simp del]

text \<open>
  \<^verbatim>\<open>parseInt(v, 10)\<close>: leading white space is skipped, one sign is read, then the
  longest run of decimal digits. Without a digit the result is \<open>NaN\<close>; otherwise it is
  the integer the digits denote with the sign read, and the sign stays at zero:
  \<^verbatim>\<open>parseInt("-0", 10)\<close> is \<open>-0\<close>. The integer is kept as sign and magnitude; the
  number the code holds is the double nearest to it. An undefined argument (\<open>None\<close>) is
  read as the string \<^verbatim>\<open>undefined\<close>, which has no digit.
\<close>

datatype sign = Plus | Minus

datatype parsed = ParsedNaN | Parsed sign nat

definition is_digit :: "nat \<Rightarrow> bool" where
  "is_digit u = (48 \<le> u \<and> u \<le> 57)"

definition digits_value :: "jsstring \<Rightarrow> nat" where
  "digits_value ds = foldl (\<lambda>a d. 10 * a + (d - 48)) 0 ds"

definition parseInt10 :: "jsstring option \<Rightarrow> parsed" where
  "parseInt10 v =
     (case v of
        None \<Rightarrow> ParsedNaN
      | Some s \<Rightarrow>
          (let S = dropWhile is_space s;
               sg = (if S \<noteq> [] \<and> hd S = 45 then Minus else Plus);
               S' = (if S \<noteq> [] \<and> (hd S = 43 \<or> hd S = 45) then tl S else S);
               Z = takeWhile is_digit S'
           in if Z = [] then ParsedNaN else Parsed sg (digits_value Z)))"

text \<open>
  The quotient \<open>wordsPerSecond\<close>, as far as it is determined without the rounding of
  doubles: \<open>NaN\<close>, one of the two infinities, or a finite number, of which only the sign
  is kept (a zero is finite). Nothing reads the quotient.
\<close>

datatype number = NaN | Infinity | NegInfinity | Finite sign

text \<open>
  \<^verbatim>\<open>n / d\<close> for an array length \<open>n\<close> and a parsed duration \<open>d\<close>. JavaScript
  raises nothing here. \<open>NaN\<close> as divisor gives \<open>NaN\<close>. A zero divisor gives \<open>NaN\<close> for
  \<open>0 / 0\<close> and otherwise the infinity with the sign of the zero: \<open>Infinity\<close> for \<open>+0\<close>,
  \<open>-Infinity\<close> for \<open>-0\<close>. Any other divisor gives a finite quotient with the sign of the
  divisor, the length being non-negative (also when the divisor is so large that its double is
  an infinity: the quotient is then a zero).
\<close>

definition js_divide :: "nat \<Rightarrow> parsed \<Rightarrow> number" where
  "js_divide n d =
     (case d of
        ParsedNaN \<Rightarrow> NaN
      | Parsed sg m \<Rightarrow>
          if m = 0 then (if n = 0 then NaN else if sg = Minus then NegInfinity else Infinity)
          else Finite sg)"

text \<open>
  Lines 475 to 495 of the handler: the words, the quotient and the cues. The block's
  result is the pair of its locals \<open>wordsPerSecond\<close> and \<open>subtitlesWithTimestamps\<close>;
  the handler sends the second.
\<close>

definition subtitlesWithTimestamps :: "jsstring \<Rightarrow> parsed \<Rightarrow> number \<times> cue list" where
  "subtitlesWithTimestamps translatedText videoDuration =
     (let words = split_ws translatedText;
          wordsPerSecond = js_divide (length words) videoDuration
      in (wordsPerSecond, cue_loop words 0 0 []))"

section \<open>Requests, responses and external calls\<close>

text \<open>
  The JSON body of a request, with the fields typed as the interface has them: each is a
  string or absent (\<open>None\<close>). \<open>!v\<close> holds for an absent field and for the empty string.
  A field that holds a value of another JSON type is outside this model; in particular a
  number, \<^verbatim>\<open>true\<close>, an array or an object as \<^verbatim>\<open>youtubeUrl\<close> has no \<^verbatim>\<open>match\<close> method,
  so line 28 of server.js, which stands before the \<^verbatim>\<open>try\<close> block, throws and the handler
  sends nothing. The theorems on the handlers speak of requests whose fields are strings or
  absent.
\<close>

record request_body =
  youtubeUrl :: "jsstring option"
  videoId :: "jsstring option"
  language :: "jsstring option"

definition falsy :: "jsstring option \<Rightarrow> bool" where
  "falsy v = (v = None \<or> v = Some [])"

text \<open>
  What a handler sends: \<^verbatim>\<open>{ message, details }\<close>, \<^verbatim>\<open>{ error }\<close>,
  \<^verbatim>\<open>{ subtitles }\<close> or a \<^verbatim>\<open>text/vtt\<close> body, with the HTTP status.
\<close>

datatype content =
  Json_message jsstring "jsstring option"
| Json_error jsstring
| Json_subtitles "cue list"
| Text_vtt jsstring

record response =
  status :: nat
  content :: content

text \<open>
  The calls that leave the process, in the order they are made: the caption fetch
  (\<^verbatim>\<open>getSubtitles({ videoID, lang })\<close>), the metadata fetch (\<^verbatim>\<open>ytdl.getInfo\<close>) and
  the translation request (\<^verbatim>\<open>model.generateContent(prompt)\<close>). A collaborator is a
  function of the call's arguments; \<open>Inl\<close> carries the message of the error it throws.
\<close>

datatype call =
  GetSubtitles jsstring jsstring
| GetInfo jsstring
| GenerateContent jsstring

text \<open>
  A caption fragment as the handler reads it: only its \<^verbatim>\<open>text\<close> field is used, the
  timing fields are never read.
\<close>

record caption =
  cap_text :: jsstring

section \<open>\<^verbatim>\<open>POST /api/generate\<close> (server.js)\<close>

text \<open>
  \<^verbatim>\<open>youtubeUrl.match(/(?:v=|youtu\.be\/)([^&?]+)/)\<close>: at the leftmost position where
  \<^verbatim>\<open>v=\<close> or \<^verbatim>\<open>youtu.be/\<close> is followed by a code unit other than \<^verbatim>\<open>&\<close> and
  \<^verbatim>\<open>?\<close>, the group captures the longest run of such code units. The result is the
  group, \<open>None\<close> when nothing matches.
\<close>

definition id_run :: "jsstring \<Rightarrow> jsstring" where
  "id_run s = takeWhile (\<lambda>u. u \<noteq> 38 \<and> u \<noteq> 63) s"

definition match_here :: "jsstring \<Rightarrow> jsstring option" where
  "match_here s =
     (if prefix (js ''v='') s \<and> id_run (drop 2 s) \<noteq> [] then Some (id_run (drop 2 s))
      else if prefix (js ''youtu.be/'') s \<and> id_run (drop 9 s) \<noteq> []
           then Some (id_run (drop 9 s))
      else None)"

fun videoIDMatch :: "jsstring \<Rightarrow> jsstring option" where
  "videoIDMatch [] = None"
| "videoIDMatch (c # cs) =
     (case match_here (c # cs) of Some v \<Rightarrow> Some v | None \<Rightarrow> videoIDMatch cs)"

text \<open>\<^verbatim>\<open>captions.map(c => c.text).join(' ')\<close>, line 44.\<close>

definition transcript :: "caption list \<Rightarrow> jsstring" where
  "transcript captions = join (map cap_text captions) sp"

text \<open>The template literal of lines 53 to 69.\<close>

definition ind :: "nat \<Rightarrow> jsstring" where
  "ind n = replicate n 32"

definition generate_prompt :: "jsstring \<Rightarrow> jsstring \<Rightarrow> jsstring" where
  "generate_prompt languageName transcriptText =
     nl @ ind 12 @ js ''You are a professional subtitle translator and formatter.''
     @ nl @ ind 12 @ js ''Your task is to translate the following English transcript into ''
       @ languageName
       @ js '' and then format the translation as a WebVTT (.vtt) file.''
     @ nl @ ind 12
     @ nl @ ind 12 @ js ''RULES:''
     @ nl @ ind 12
       @ js ''- The final output MUST strictly be a valid VTT file format, starting with ''
       @ dq @ js ''WEBVTT'' @ dq @ js '' on the first line.''
     @ nl @ ind 12
       @ js ''- Do not include any extra text, explanations, or comments outside of the VTT content itself.''
     @ nl @ ind 12
       @ js ''- Break the translated text into logical subtitle cues. Each cue should be a reasonable length for reading.''
     @ nl @ ind 12
       @ js ''- Create timestamps for each cue in the format HH:MM:SS.mmm --> HH:MM:SS.mmm.''
     @ nl @ ind 12 @ js ''- A typical cue duration is between 2 and 7 seconds.''
     @ nl @ ind 12
       @ js ''- Timestamps must be sequential and must not overlap. Start the very first cue at 00:00:00.000.''
     @ nl
     @ nl @ ind 12 @ js ''Here is the English transcript to translate and format:''
     @ nl @ ind 12 @ js ''---''
     @ nl @ ind 12 @ transcriptText
     @ nl @ ind 12 @ js ''---''
     @ nl @ ind 8"

definition msg_missing :: jsstring where
  "msg_missing = js ''Missing youtubeUrl or language in request body.''"

definition msg_invalid_url :: jsstring where
  "msg_invalid_url = js ''Invalid YouTube URL format.''"

definition msg_no_subtitles :: jsstring where
  "msg_no_subtitles =
     js ''No English subtitles found for this video. Cannot generate translation.''"

definition msg_internal :: jsstring where
  "msg_internal = js ''An internal server error occurred.''"

text \<open>
  The handler of lines 20 to 94. Its result is the response and the list of external
  calls made. \<open>getSubtitles\<close> returns the caption array, \<open>None\<close> for a null or
  undefined result; \<open>displayName\<close> is \<^verbatim>\<open>Intl.DisplayNames.of\<close>, which runs locally
  and throws a RangeError on a tag that is not well-formed; \<open>generateContent\<close> returns
  the text of the response. Every error thrown inside the \<^verbatim>\<open>try\<close> block is answered by
  status 500.
\<close>

definition api_generate ::
  "(jsstring \<Rightarrow> jsstring \<Rightarrow> jsstring + caption list option) \<Rightarrow>
   (jsstring \<Rightarrow> jsstring + jsstring) \<Rightarrow>
   (jsstring \<Rightarrow> jsstring + jsstring) \<Rightarrow>
   request_body \<Rightarrow> response \<times> call list" where
  "api_generate getSubtitles displayName generateContent req =
     (if falsy (youtubeUrl req) \<or> falsy (language req)
      then (\<lparr>status = 400, content = Json_message msg_missing None\<rparr>, [])
      else
        (case videoIDMatch (the (youtubeUrl req)) of
           None \<Rightarrow> (\<lparr>status = 400, content = Json_message msg_invalid_url None\<rparr>, [])
         | Some videoID \<Rightarrow>
            (case getSubtitles videoID (js ''en'') of
               Inl e \<Rightarrow>
                 (\<lparr>status = 500, content = Json_message msg_internal (Some e)\<rparr>,
                  [GetSubtitles videoID (js ''en'')])
             | Inr captions \<Rightarrow>
                 if captions = None \<or> length (the captions) = 0
                 then (\<lparr>status = 404, content = Json_message msg_no_subtitles None\<rparr>,
                       [GetSubtitles videoID (js ''en'')])
                 else
                   (case displayName (the (language req)) of
                      Inl e \<Rightarrow>
                        (\<lparr>status = 500, content = Json_message msg_internal (Some e)\<rparr>,
                         [GetSubtitles videoID (js ''en'')])
                    | Inr languageName \<Rightarrow>
                       (let prompt = generate_prompt languageName (transcript (the captions))
                        in case generateContent prompt of
                             Inl e \<Rightarrow>
                               (\<lparr>status = 500,
                                 content = Json_message msg_internal (Some e)\<rparr>,
                                [GetSubtitles videoID (js ''en''), GenerateContent prompt])
                           | Inr text \<Rightarrow>
                               (\<lparr>status = 200, content = Text_vtt (vttContent text)\<rparr>,
                                [GetSubtitles videoID (js ''en''),
                                 GenerateContent prompt]))))))"

section \<open>\<^verbatim>\<open>POST /api/subtitles\<close> (the second server)\<close>

text \<open>The placeholder transcript of lines 453 to 455 and the template of lines 458 to 465.\<close>

definition englishTranscriptPlaceholder :: jsstring where
  "englishTranscriptPlaceholder =
     nl @ ind 12
     @ js ''Hello everyone and welcome to this video tutorial. In this segment, we will be discussing the fundamental concepts of full-stack web development. First, we will cover the basics of a client-server architecture. On the client side, we use languages like HTML, CSS, and JavaScript. On the server side, we use frameworks like Node.js and Express to handle requests and data. This separation is crucial for building scalable and maintainable applications. Thank you for watching and stay tuned for more!''
     @ nl @ ind 8"

definition subtitles_prompt :: "jsstring \<Rightarrow> jsstring \<Rightarrow> jsstring" where
  "subtitles_prompt lang videoTitle =
     nl @ ind 12 @ js ''Translate the following English transcript into '' @ lang @ js ''.''
     @ nl @ ind 12 @ js ''Make sure the translation is context-aware and sounds natural.''
     @ nl @ ind 12 @ js ''The original video is titled '' @ dq @ videoTitle @ dq @ js ''.''
     @ nl @ ind 12
     @ nl @ ind 12 @ js ''Original Transcript:''
     @ nl @ ind 12 @ englishTranscriptPlaceholder
     @ nl @ ind 8"

definition msg_required :: jsstring where
  "msg_required = js ''Video ID and language are required.''"

definition msg_failed :: jsstring where
  "msg_failed =
     js ''Failed to generate subtitles. Please check the video link and try again.''"

text \<open>
  The handler of lines 427 to 503. \<open>getInfo\<close> returns the title and the
  \<^verbatim>\<open>lengthSeconds\<close> field of the video details (\<open>None\<close> when the field is undefined).
\<close>

definition api_subtitles ::
  "(jsstring \<Rightarrow> jsstring + jsstring \<times> jsstring option) \<Rightarrow>
   (jsstring \<Rightarrow> jsstring + jsstring) \<Rightarrow>
   request_body \<Rightarrow> response \<times> call list" where
  "api_subtitles getInfo generateContent req =
     (if falsy (videoId req) \<or> falsy (language req)
      then (\<lparr>status = 400, content = Json_error msg_required\<rparr>, [])
      else
        (case getInfo (the (videoId req)) of
           Inl e \<Rightarrow>
             (\<lparr>status = 500, content = Json_error msg_failed\<rparr>, [GetInfo (the (videoId req))])
         | Inr (videoTitle, lengthSeconds) \<Rightarrow>
            (let videoDuration = parseInt10 lengthSeconds;
                 prompt = subtitles_prompt (the (language req)) videoTitle
             in case generateContent prompt of
                  Inl e \<Rightarrow>
                    (\<lparr>status = 500, content = Json_error msg_failed\<rparr>,
                     [GetInfo (the (videoId req)), GenerateContent prompt])
                | Inr translatedText \<Rightarrow>
                    (\<lparr>status = 200,
                      content = Json_subtitles
                        (snd (subtitlesWithTimestamps translatedText videoDuration))\<rparr>,
                     [GetInfo (the (videoId req)), GenerateContent prompt]))))"

text \<open>
  The language lists of the two clients, the only enumerations of language tags in the
  repository. Neither server reads them.
\<close>

definition languages_subtitles_client :: "jsstring list" where
  "languages_subtitles_client =
     [js ''en'', js ''es'', js ''fr'', js ''de'', js ''ja'', js ''zh'']"

definition languages_generate_client :: "jsstring list" where
  "languages_generate_client =
     [js ''es'', js ''fr'', js ''de'', js ''it'', js ''pt'', js ''ja'', js ''ko'',
      js ''zh-CN'', js ''hi'', js ''ar'', js ''ru'']"

section \<open>The transcript as the specification words it\<close>

text \<open>
  The specification of the Transcript Assembler: the texts in their order, one space
  between two neighbours. This definition follows the specification, not the source; it
  is compared with \<open>transcript\<close> below.
\<close>

fun spec_space_joined :: "jsstring list \<Rightarrow> jsstring" where
  "spec_space_joined [] = []"
| "spec_space_joined [x] = x"
| "spec_space_joined (x # y # ys) = x @ sp @ spec_space_joined (y # ys)"

section \<open>Substrings, trimming and global replacement\<close>

lemma js_includes_iff: "js_includes s p \<longleftrightarrow> (\<exists>a b. s = a @ p @ b)"
proof (induction s)
  case Nil
  then show ?case by auto
next
  case (Cons c cs)
  show ?case
  proof
    assume "js_includes (c # cs) p"
    then consider "prefix p (c # cs)" | "js_includes cs p" by auto
    then show "\<exists>a b. c # cs = a @ p @ b"
    proof cases
      case 1
      then obtain b where "c # cs = p @ b" by (auto simp: prefix_def)
      then have "c # cs = [] @ p @ b" by simp
      then show ?thesis by blast
    next
      case 2
      with Cons.IH obtain a b where "cs = a @ p @ b" by blast
      then have "c # cs = (c # a) @ p @ b" by simp
      then show ?thesis by blast
    qed
  next
    assume "\<exists>a b. c # cs = a @ p @ b"
    then obtain a b where ab: "c # cs = a @ p @ b" by blast
    show "js_includes (c # cs) p"
    proof (cases a)
      case Nil
      with ab have "prefix p (c # cs)" by (simp add: prefix_def)
      then show ?thesis by simp
    next
      case (Cons x a')
      with ab have "cs = a' @ p @ b" by simp
      with Cons.IH have "js_includes cs p" by blast
      then show ?thesis by simp
    qed
  qed
qed

lemma js_includes_longer: "js_includes s (p @ q) \<Longrightarrow> js_includes s p"
proof -
  assume "js_includes s (p @ q)"
  then obtain a b where "s = a @ (p @ q) @ b" unfolding js_includes_iff by blast
  then have "s = a @ p @ (q @ b)" by simp
  then show ?thesis unfolding js_includes_iff by blast
qed

lemma js_includes_skip: "u \<notin> set h \<Longrightarrow> js_includes (h @ t) (u # p) = js_includes t (u # p)"
  by (induction h) auto

lemma trim_decompose: "\<exists>a b. s = a @ trim s @ b"
proof -
  let ?d = "dropWhile is_space s"
  have "?d = rev (rev ?d)" by simp
  also have "rev ?d = takeWhile is_space (rev ?d) @ dropWhile is_space (rev ?d)"
    by (simp only: takeWhile_dropWhile_id)
  also have "rev \<dots> = trim s @ rev (takeWhile is_space (rev ?d))"
    by (simp only: rev_append trim_def)
  finally have d: "?d = trim s @ rev (takeWhile is_space (rev ?d))" .
  have "s = takeWhile is_space s @ ?d" by simp
  with d have "s = takeWhile is_space s @ trim s @ rev (takeWhile is_space (rev ?d))"
    by simp
  then show ?thesis by blast
qed

lemma js_includes_trim: "js_includes (trim s) p \<Longrightarrow> js_includes s p"
proof -
  assume "js_includes (trim s) p"
  then obtain a b where t: "trim s = a @ p @ b" by (auto simp: js_includes_iff)
  obtain a' b' where "s = a' @ trim s @ b'" using trim_decompose by blast
  with t have "s = (a' @ a) @ p @ (b @ b')" by simp
  then show ?thesis unfolding js_includes_iff by blast
qed

lemma trim_empty_iff: "trim s = [] \<longleftrightarrow> (\<forall>c\<in>set s. is_space c)"
proof -
  let ?d = "dropWhile is_space s"
  have "trim s = [] \<longleftrightarrow> (\<forall>c\<in>set ?d. is_space c)"
    by (simp add: trim_def dropWhile_eq_Nil_conv)
  also have "\<dots> \<longleftrightarrow> (\<forall>c\<in>set s. is_space c)"
  proof
    assume all: "\<forall>c\<in>set ?d. is_space c"
    have "?d = []"
    proof (rule ccontr)
      assume ne: "?d \<noteq> []"
      then have "hd ?d \<in> set ?d" by (rule hd_in_set)
      with all have "is_space (hd ?d)" by blast
      moreover from ne have "\<not> is_space (hd ?d)" by (rule hd_dropWhile)
      ultimately show False by blast
    qed
    then show "\<forall>c\<in>set s. is_space c" by (simp only: dropWhile_eq_Nil_conv)
  next
    assume "\<forall>c\<in>set s. is_space c"
    then show "\<forall>c\<in>set ?d. is_space c" by (meson set_dropWhileD)
  qed
  finally show ?thesis .
qed

text \<open>
  Replacing the triple \<open>u u u\<close> by nothing shortens every run of \<open>u\<close> to its length
  modulo three, so no triple is left.
\<close>

lemma not_fence_prefix: "\<not> prefix [u, u, u] (u # cs) \<Longrightarrow> length (takeWhile (\<lambda>x. x = u) cs) < 2"
  by (cases cs; cases "tl cs") auto

lemma replace_run:
  "length (takeWhile (\<lambda>x. x = u) (replace_all [u, u, u] [] s)) = length (takeWhile (\<lambda>x. x = u) s) mod 3"
proof (induction "[u, u, u]" "[] :: jsstring" s rule: replace_all.induct)
  case 1
  then show ?case by simp
next
  case (2 c cs)
  show ?case
  proof (cases "prefix [u, u, u] (c # cs)")
    case True
    then obtain r where r: "c # cs = u # u # u # r" by (auto simp: prefix_def)
    with 2 True show ?thesis by simp
  next
    case False
    show ?thesis
    proof (cases "c = u")
      case True
      with False have "\<not> prefix [u, u, u] (u # cs)" by simp
      then have "length (takeWhile (\<lambda>x. x = u) cs) < 2"
        by (rule not_fence_prefix)
      with 2 False True show ?thesis by simp
    next
      case c: False
      with 2 False show ?thesis by simp
    qed
  qed
qed

lemma replace_no_prefix: "\<not> prefix [u, u, u] (replace_all [u, u, u] [] s)"
proof
  assume "prefix [u, u, u] (replace_all [u, u, u] [] s)"
  then obtain r where "replace_all [u, u, u] [] s = u # u # u # r" by (auto simp: prefix_def)
  then have "length (takeWhile (\<lambda>x. x = u) (replace_all [u, u, u] [] s)) \<ge> 3" by simp
  then show False using replace_run [of u s]
    by (metis linorder_not_less mod_less_divisor zero_less_numeral)
qed

lemma replace_no_fence: "\<not> js_includes (replace_all [u, u, u] [] s) [u, u, u]"
proof (induction "[u, u, u]" "[] :: jsstring" s rule: replace_all.induct)
  case 1
  then show ?case by simp
next
  case (2 c cs)
  have ne: "[u, u, u] \<noteq> []" by simp
  show ?case
  proof (cases "prefix [u, u, u] (c # cs)")
    case True
    have ih: "\<not> js_includes (replace_all [u, u, u] [] (drop (length [u, u, u]) (c # cs))) [u, u, u]"
      using ne True by (intro 2(1) conjI)
    have eq: "replace_all [u, u, u] [] (c # cs)
        = replace_all [u, u, u] [] (drop (length [u, u, u]) (c # cs))"
      using ne True by (simp only: replace_all.simps simp_thms if_True append_Nil)
    show ?thesis by (subst eq) (rule ih)
  next
    case False
    then have eq: "replace_all [u, u, u] [] (c # cs) = c # replace_all [u, u, u] [] cs"
      by (simp only: replace_all.simps simp_thms if_False)
    have "\<not> prefix [u, u, u] (c # replace_all [u, u, u] [] cs)"
      using replace_no_prefix [of u "c # cs"] unfolding eq .
    moreover have "\<not> js_includes (replace_all [u, u, u] [] cs) [u, u, u]"
      using 2(2) False by blast
    ultimately show ?thesis by (simp only: eq js_includes.simps simp_thms)
  qed
qed

lemma replace_normal:
  "replace_all [u, u, u] [] s =
     replicate (length (takeWhile (\<lambda>x. x = u) s) mod 3) u
     @ (case dropWhile (\<lambda>x. x = u) s of [] \<Rightarrow> [] | x # xs \<Rightarrow> x # replace_all [u, u, u] [] xs)"
proof (induction "[u, u, u]" "[] :: jsstring" s rule: replace_all.induct)
  case 1
  then show ?case by simp
next
  case (2 c cs)
  have ne: "[u, u, u] \<noteq> []" by simp
  show ?case
  proof (cases "prefix [u, u, u] (c # cs)")
    case True
    then obtain r where r: "c # cs = u # u # u # r" by (auto simp: prefix_def)
    have ih: "replace_all [u, u, u] [] r =
        replicate (length (takeWhile (\<lambda>x. x = u) r) mod 3) u
        @ (case dropWhile (\<lambda>x. x = u) r of [] \<Rightarrow> []
           | x # xs \<Rightarrow> x # replace_all [u, u, u] [] xs)"
      using 2(1) ne True r by simp
    have "replace_all [u, u, u] [] (u # u # u # r) = replace_all [u, u, u] [] r"
      by simp
    also note ih
    finally show ?thesis unfolding r by simp
  next
    case False
    then have eq: "replace_all [u, u, u] [] (c # cs) = c # replace_all [u, u, u] [] cs"
      by (simp only: replace_all.simps simp_thms if_False)
    show ?thesis
    proof (cases "c = u")
      case True
      with False have "\<not> prefix [u, u, u] (u # cs)" by simp
      then have lt: "length (takeWhile (\<lambda>x. x = u) cs) < 2"
        by (rule not_fence_prefix)
      have ih: "replace_all [u, u, u] [] cs =
          replicate (length (takeWhile (\<lambda>x. x = u) cs) mod 3) u
          @ (case dropWhile (\<lambda>x. x = u) cs of [] \<Rightarrow> []
             | x # xs \<Rightarrow> x # replace_all [u, u, u] [] xs)"
        using 2(2) False by blast
      from lt have m: "length (takeWhile (\<lambda>x. x = u) cs) mod 3 = length (takeWhile (\<lambda>x. x = u) cs)"
        and m': "Suc (length (takeWhile (\<lambda>x. x = u) cs)) mod 3 = Suc (length (takeWhile (\<lambda>x. x = u) cs))"
        by simp_all
      show ?thesis
        unfolding eq by (subst ih) (simp add: True m m')
    next
      case c: False
      then show ?thesis unfolding eq by simp
    qed
  qed
qed

lemma replace_delete:
  "replace_all [u, u, u] [] (a @ [u, u, u] @ t) = replace_all [u, u, u] [] (a @ t)"
proof (induction a rule: length_induct)
  case (1 a)
  let ?P = "\<lambda>x. x = u"
  show ?case
  proof (cases "\<forall>x\<in>set a. x = u")
    case True
    then have tw: "\<And>r. takeWhile ?P (a @ r) = a @ takeWhile ?P r"
      and dw: "\<And>r. dropWhile ?P (a @ r) = dropWhile ?P r"
      by simp_all
    have "length (takeWhile ?P (a @ [u, u, u] @ t)) mod 3 = length (takeWhile ?P (a @ t)) mod 3"
      by (simp add: tw)
    moreover have "dropWhile ?P (a @ [u, u, u] @ t) = dropWhile ?P (a @ t)"
      by (simp add: dw)
    ultimately show ?thesis
      by (subst replace_normal, subst (2) replace_normal) (simp only:)
  next
    case False
    then obtain y where y: "y \<in> set a" "\<not> ?P y" by blast
    then have tw: "\<And>r. takeWhile ?P (a @ r) = takeWhile ?P a"
      and dw: "\<And>r. dropWhile ?P (a @ r) = dropWhile ?P a @ r"
      by simp_all
    from y have "dropWhile ?P a \<noteq> []" by auto
    then obtain x a' where xa: "dropWhile ?P a = x # a'" by (cases "dropWhile ?P a") auto
    have "length (dropWhile ?P a) \<le> length a" by (rule length_dropWhile_le)
    with xa have "length a' < length a" by simp
    with 1 have "replace_all [u, u, u] [] (a' @ [u, u, u] @ t) = replace_all [u, u, u] [] (a' @ t)"
      by blast
    then have ih: "replace_all [u, u, u] [] (a' @ u # u # u # t) = replace_all [u, u, u] [] (a' @ t)"
      by simp
    show ?thesis
      by (subst replace_normal, subst (2) replace_normal) (simp add: tw dw xa ih)
  qed
qed

lemma replace_all_absent: "\<not> js_includes s pat \<Longrightarrow> replace_all pat rep s = s"
  by (induction s) simp_all

text \<open>The cleaned document has no fence, and a clean document is left as it is.\<close>

lemma vttContent_no_fence: "\<not> js_includes (vttContent raw) fence"
proof -
  let ?t = "trim (replace_all fence [] (replace_all fence_vtt [] raw))"
  have t: "\<not> js_includes ?t fence"
    using replace_no_fence [of backtick] js_includes_trim unfolding fence_def by blast
  have "backtick \<notin> set (WEBVTT @ nl @ nl)"
    by (simp add: WEBVTT_def js_def nl_def backtick_def)
  then have "js_includes ((WEBVTT @ nl @ nl) @ ?t) fence = js_includes ?t fence"
    unfolding fence_def by (rule js_includes_skip)
  with t show ?thesis by (simp add: vttContent_def Let_def)
qed

lemma vttContent_clean:
  assumes "startsWith text WEBVTT" "\<not> js_includes text fence" "trim text = text"
  shows "vttContent text = text"
proof -
  from assms(2) have "\<not> js_includes text fence_vtt"
    unfolding fence_vtt_def using js_includes_longer by blast
  then have "replace_all fence_vtt [] text = text" by (rule replace_all_absent)
  moreover from assms(2) have "replace_all fence [] text = text" by (rule replace_all_absent)
  ultimately show ?thesis using assms(1,3) by (simp add: vttContent_def Let_def)
qed

section \<open>Joining and splitting\<close>

lemma join_loop_eq:
  "0 < k \<Longrightarrow> join_loop xs sep k R = R @ concat (map ((@) sep) (drop k xs))"
proof (induction xs sep k R rule: join_loop.induct)
  case (1 xs sep k R)
  show ?case
  proof (cases "k < length xs")
    case True
    then have d: "drop k xs = xs ! k # drop (Suc k) xs"
      by (simp add: Cons_nth_drop_Suc)
    have "join_loop xs sep k R = join_loop xs sep (Suc k) ((if 0 < k then R @ sep else R) @ xs ! k)"
      using True by (subst join_loop.simps) simp
    also have "\<dots> = ((if 0 < k then R @ sep else R) @ xs ! k) @ concat (map ((@) sep) (drop (Suc k) xs))"
      using True by (intro "1.IH") simp_all
    finally show ?thesis using "1.prems" by (simp add: d)
  next
    case False
    then show ?thesis by (subst join_loop.simps) simp
  qed
qed

lemma join_Nil: "join [] sep = []"
  unfolding join_def by (subst join_loop.simps) simp

lemma join_Cons: "join (x # xs) sep = x @ concat (map ((@) sep) xs)"
proof -
  have "join (x # xs) sep = join_loop (x # xs) sep (Suc 0) x"
    unfolding join_def by (subst join_loop.simps) simp
  then show ?thesis by (simp add: join_loop_eq)
qed

lemma join_append:
  "xs \<noteq> [] \<Longrightarrow> join (xs @ ys) sep = join xs sep @ concat (map ((@) sep) ys)"
  by (cases xs) (simp_all add: join_Cons)

lemma length_join:
  "xs \<noteq> [] \<Longrightarrow> length (join xs sep) + length sep = sum_list (map length xs) + length xs * length sep"
proof (cases xs)
  case Nil
  then show "xs \<noteq> [] \<Longrightarrow> ?thesis" by simp
next
  case (Cons x r)
  have "length (concat (map ((@) sep) r)) = sum_list (map length r) + length r * length sep"
    by (induction r) simp_all
  with Cons show ?thesis by (simp add: join_Cons)
qed

lemma set_join: "w \<in> set xs \<Longrightarrow> set w \<subseteq> set (join xs sep)"
  by (cases xs) (auto simp: join_Cons)

lemma spec_space_joined_Cons: "spec_space_joined (x # xs) = x @ concat (map ((@) sp) xs)"
  by (induction xs arbitrary: x) simp_all

text \<open>
  The split at its edges: the empty text gives one empty string, and white space at the
  start or at the end of the text gives an empty string on that side. Words without
  white space, each after a run of white space, come back from the split one by one.
\<close>

lemma split_ws_edges:
  "split_ws [] = [[]]"
  "split_ws (sp @ js ''a b'') = [[], js ''a'', js ''b'']"
  "split_ws (js ''a b'' @ nl) = [js ''a'', js ''b'', []]"
  by (simp_all add: split_ws_def js_def sp_def nl_def is_space_def)

lemma split_from_nonempty: "split_from cur s \<noteq> []"
  by (induction cur s rule: split_from.induct) auto

lemma split_ws_nonempty: "split_ws s \<noteq> []"
  unfolding split_ws_def by (rule split_from_nonempty)

lemma split_from_word:
  "\<forall>c\<in>set w. \<not> is_space c \<Longrightarrow> split_from cur (w @ s) = split_from (cur @ w) s"
  by (induction w arbitrary: cur) simp_all

lemma split_from_spaces:
  "s \<noteq> [] \<Longrightarrow> \<forall>c\<in>set s. is_space c \<Longrightarrow>
   split_from cur (s @ r) = cur # split_from [] (dropWhile is_space r)"
  by (cases s) (simp_all add: dropWhile_append2)

lemma split_from_pairs:
  "\<forall>(s, w)\<in>set sws. s \<noteq> [] \<and> (\<forall>c\<in>set s. is_space c) \<and> w \<noteq> [] \<and> (\<forall>c\<in>set w. \<not> is_space c) \<Longrightarrow>
   \<forall>c\<in>set trailing. is_space c \<Longrightarrow>
   split_from cur (concat (map (\<lambda>(s, w). s @ w) sws) @ trailing)
     = (cur # map snd sws) @ (if trailing = [] then [] else [[]])"
proof (induction sws arbitrary: cur)
  case Nil
  then show ?case
    using split_from_spaces [of trailing cur "[]"] by simp
next
  case (Cons p sws)
  obtain s w where p: "p = (s, w)" by (cases p)
  let ?X = "concat (map (\<lambda>(s, w). s @ w) sws) @ trailing"
  from Cons.prems p have s: "s \<noteq> []" "\<forall>c\<in>set s. is_space c"
    and w: "w \<noteq> []" "\<forall>c\<in>set w. \<not> is_space c" by auto
  from w have hd: "\<not> is_space (hd w)" by (cases w) auto
  have dw: "dropWhile is_space (w @ ?X) = w @ ?X"
    using w hd by (cases w) auto
  have "split_from cur (s @ w @ ?X) = cur # split_from [] (w @ ?X)"
    using split_from_spaces [OF s, of cur "w @ ?X"] by (simp only: dw)
  also have "split_from [] (w @ ?X) = split_from w ?X"
    using split_from_word [OF w(2), of "[]" ?X] by simp
  also have "\<dots> = (w # map snd sws) @ (if trailing = [] then [] else [[]])"
    using Cons.prems by (intro Cons.IH) simp_all
  finally show ?case by (simp add: p)
qed

lemma split_ws_separated:
  assumes "\<forall>c\<in>set w0. \<not> is_space c"
    and "\<forall>(s, w)\<in>set sws. s \<noteq> [] \<and> (\<forall>c\<in>set s. is_space c) \<and> w \<noteq> [] \<and> (\<forall>c\<in>set w. \<not> is_space c)"
    and "\<forall>c\<in>set trailing. is_space c"
  shows "split_ws (w0 @ concat (map (\<lambda>(s, w). s @ w) sws) @ trailing)
     = (w0 # map snd sws) @ (if trailing = [] then [] else [[]])"
  unfolding split_ws_def
  using split_from_word [OF assms(1), of "[]"] split_from_pairs [OF assms(2,3), of w0]
  by simp

section \<open>The loop of the cue synthesizer\<close>

lemma cue_loop_step:
  "wordIndex < length words \<Longrightarrow>
   trim (join (slice words wordIndex (wordIndex + 5)) sp) \<noteq> [] \<Longrightarrow>
   cue_loop words wordIndex timeOffset subs =
     cue_loop words (wordIndex + 5) (timeOffset + 2)
       (subs @ [\<lparr>cue_text = join (slice words wordIndex (wordIndex + 5)) sp,
                 cue_start = timeOffset, cue_end = timeOffset + 2\<rparr>])"
  by (subst cue_loop.simps) simp

lemma cue_loop_skip:
  "wordIndex < length words \<Longrightarrow>
   trim (join (slice words wordIndex (wordIndex + 5)) sp) = [] \<Longrightarrow>
   cue_loop words wordIndex timeOffset subs = cue_loop words (wordIndex + 5) timeOffset subs"
  by (subst cue_loop.simps) simp

lemma cue_loop_done:
  "\<not> wordIndex < length words \<Longrightarrow> cue_loop words wordIndex timeOffset subs = subs"
  by (subst cue_loop.simps) simp

text \<open>The invariant of the loop: cue number \<open>k\<close> runs from \<open>2k\<close> to \<open>2k + 2\<close>.\<close>

lemma cue_loop_times:
  "(\<forall>k<length subs. cue_start (subs ! k) = 2 * int k \<and> cue_end (subs ! k) = 2 * int k + 2) \<Longrightarrow>
   timeOffset = 2 * int (length subs) \<Longrightarrow>
   k < length (cue_loop words wordIndex timeOffset subs) \<Longrightarrow>
   cue_start (cue_loop words wordIndex timeOffset subs ! k) = 2 * int k
   \<and> cue_end (cue_loop words wordIndex timeOffset subs ! k) = 2 * int k + 2"
proof (induction words wordIndex timeOffset subs rule: cue_loop.induct)
  case (1 words wordIndex timeOffset subs)
  let ?text = "join (slice words wordIndex (wordIndex + 5)) sp"
  let ?subs' = "subs @ [\<lparr>cue_text = ?text, cue_start = timeOffset, cue_end = timeOffset + 2\<rparr>]"
  consider (stop) "\<not> wordIndex < length words"
    | (skip) "wordIndex < length words" "trim ?text = []"
    | (push) "wordIndex < length words" "trim ?text \<noteq> []"
    by blast
  then show ?case
  proof cases
    case stop
    with "1.prems" show ?thesis by (simp add: cue_loop_done)
  next
    case skip
    then have eq: "cue_loop words wordIndex timeOffset subs
        = cue_loop words (wordIndex + 5) timeOffset subs"
      by (rule cue_loop_skip)
    from "1.prems"(3) have k: "k < length (cue_loop words (wordIndex + 5) timeOffset subs)"
      unfolding eq .
    show ?thesis
      unfolding eq by (rule "1.IH"(1) [OF skip "1.prems"(1,2) k])
  next
    case push
    then have eq: "cue_loop words wordIndex timeOffset subs
        = cue_loop words (wordIndex + 5) (timeOffset + 2) ?subs'"
      by (rule cue_loop_step)
    have inv: "\<forall>k<length ?subs'. cue_start (?subs' ! k) = 2 * int k
        \<and> cue_end (?subs' ! k) = 2 * int k + 2"
      using "1.prems"(1,2) by (auto simp: nth_append less_Suc_eq)
    have off: "timeOffset + 2 = 2 * int (length ?subs')"
      using "1.prems"(2) by simp
    from "1.prems"(3)
    have k: "k < length (cue_loop words (wordIndex + 5) (timeOffset + 2) ?subs')"
      unfolding eq .
    show ?thesis
      unfolding eq by (rule "1.IH"(2) [OF push inv off k])
  qed
qed

lemma nth_slice: "j < 5 \<Longrightarrow> a + j < length xs \<Longrightarrow> xs ! (a + j) \<in> set (slice xs a (a + 5))"
proof -
  assume j: "j < 5" and a: "a + j < length xs"
  then have "j < length (slice xs a (a + 5))" by (simp add: slice_def)
  moreover have "slice xs a (a + 5) ! j = xs ! (a + j)"
    using j a by (simp add: slice_def)
  ultimately show ?thesis by (metis nth_mem)
qed

lemma word_group_not_blank:
  assumes "a < length ws" "\<forall>w\<in>set ws. w \<noteq> [] \<and> (\<forall>c\<in>set w. \<not> is_space c)"
  shows "trim (join (slice (ws @ extra) a (a + 5)) sp) \<noteq> []"
proof -
  let ?w = "(ws @ extra) ! (a + 0)"
  from assms(1) have w: "?w = ws ! a" by (simp add: nth_append)
  with assms have "?w \<in> set ws" by simp
  with assms(2) obtain c where c: "c \<in> set ?w" "\<not> is_space c" by (cases ?w) auto
  have "?w \<in> set (slice (ws @ extra) a (a + 5))"
    using assms(1) by (intro nth_slice) simp_all
  then have "c \<in> set (join (slice (ws @ extra) a (a + 5)) sp)"
    using c(1) set_join by blast
  with c(2) show ?thesis by (auto simp: trim_empty_iff)
qed

lemma slice_words: "a + 5 \<le> length ws \<Longrightarrow> slice (ws @ extra) a (a + 5) = take 5 (drop a ws)"
  by (simp add: slice_def)

lemma cue_loop_25:
  assumes len: "length ws = 25"
    and good: "\<forall>w\<in>set ws. w \<noteq> [] \<and> (\<forall>c\<in>set w. \<not> is_space c)"
    and extra: "extra = [] \<or> extra = [[]]"
  shows "cue_loop (ws @ extra) 0 0 [] =
    [\<lparr>cue_text = join (take 5 ws) sp, cue_start = 0, cue_end = 2\<rparr>,
     \<lparr>cue_text = join (take 5 (drop 5 ws)) sp, cue_start = 2, cue_end = 4\<rparr>,
     \<lparr>cue_text = join (take 5 (drop 10 ws)) sp, cue_start = 4, cue_end = 6\<rparr>,
     \<lparr>cue_text = join (take 5 (drop 15 ws)) sp, cue_start = 6, cue_end = 8\<rparr>,
     \<lparr>cue_text = join (take 5 (drop 20 ws)) sp, cue_start = 8, cue_end = 10\<rparr>]"
proof -
  let ?ws = "ws @ extra"
  let ?out = "[\<lparr>cue_text = join (take 5 ws) sp, cue_start = 0, cue_end = 2\<rparr>,
     \<lparr>cue_text = join (take 5 (drop 5 ws)) sp, cue_start = 2, cue_end = 4\<rparr>,
     \<lparr>cue_text = join (take 5 (drop 10 ws)) sp, cue_start = 4, cue_end = 6\<rparr>,
     \<lparr>cue_text = join (take 5 (drop 15 ws)) sp, cue_start = 6, cue_end = 8\<rparr>,
     \<lparr>cue_text = join (take 5 (drop 20 ws)) sp, cue_start = 8, cue_end = 10\<rparr>]"
  have step: "\<And>a t subs. a \<le> 20 \<Longrightarrow>
      cue_loop ?ws a t subs = cue_loop ?ws (a + 5) (t + 2)
        (subs @ [\<lparr>cue_text = join (take 5 (drop a ws)) sp, cue_start = t, cue_end = t + 2\<rparr>])"
  proof -
    fix a :: nat and t subs assume a: "a \<le> 20"
    with len have 1: "a < length ?ws" and 2: "a < length ws" and 3: "a + 5 \<le> length ws"
      by simp_all
    show "cue_loop ?ws a t subs = cue_loop ?ws (a + 5) (t + 2)
        (subs @ [\<lparr>cue_text = join (take 5 (drop a ws)) sp, cue_start = t, cue_end = t + 2\<rparr>])"
      using cue_loop_step [OF 1 word_group_not_blank [OF 2 good], of t subs]
      by (simp only: slice_words [OF 3])
  qed
  have "cue_loop ?ws 0 0 [] = cue_loop ?ws 5 2 (take 1 ?out)"
    using step [of 0 0 "[]"] by simp
  also have "\<dots> = cue_loop ?ws 10 4 (take 2 ?out)"
    using step [of 5 2 "take 1 ?out"] by simp
  also have "\<dots> = cue_loop ?ws 15 6 (take 3 ?out)"
    using step [of 10 4 "take 2 ?out"] by simp
  also have "\<dots> = cue_loop ?ws 20 8 (take 4 ?out)"
    using step [of 15 6 "take 3 ?out"] by simp
  also have "\<dots> = cue_loop ?ws 25 10 ?out"
    using step [of 20 8 "take 4 ?out"] by simp
  also have "\<dots> = ?out"
  proof (cases "extra = []")
    case True
    with len show ?thesis by (intro cue_loop_done) simp
  next
    case False
    with extra have e: "extra = [[]]" by blast
    have "trim (join (slice ?ws 25 (25 + 5)) sp) = []"
      using len by (simp add: e slice_def join_Cons trim_def)
    moreover have "25 < length ?ws" using len e by simp
    ultimately have "cue_loop ?ws 25 10 ?out = cue_loop ?ws (25 + 5) 10 ?out"
      by (rule cue_loop_skip [rotated])
    also have "\<dots> = ?out" using len e by (intro cue_loop_done) simp
    finally show ?thesis .
  qed
  finally show ?thesis .
qed

lemmas string_eval =
  vttContent_def fence_vtt_def fence_def backtick_def js_def nl_def sp_def dq_def trim_def
  is_space_def startsWith_def WEBVTT_def

lemmas handler_eval =
  api_generate_def api_subtitles_def falsy_def match_here_def id_run_def transcript_def
  join_Nil join_Cons Let_def

lemmas synth_eval =
  subtitlesWithTimestamps_def split_ws_def slice_def cue_loop.simps js_divide_def
  parseInt10_def is_digit_def digits_value_def

section \<open>The claims\<close>

subsection \<open>C1: timestamps are not validated\<close>

text \<open>
  C1 as stated fails. The collaborator returns a document whose only cue ends (at second 2)
  before it starts (at second 5); \<^verbatim>\<open>/api/generate\<close> answers 200 and sends that document
  unchanged.
\<close>

theorem reversed_cue_is_sent:
  "fst (api_generate
         (\<lambda>videoID lang. Inr (Some [\<lparr>cap_text = js ''hello''\<rparr>]))
         (\<lambda>lang. Inr (js ''Spanish''))
         (\<lambda>prompt. Inr (WEBVTT @ nl @ nl @ js ''00:00:05.000 --> 00:00:02.000'' @ nl @ js ''hola''))
         \<lparr>youtubeUrl = Some (js ''https://youtu.be/abc''), videoId = None,
          language = Some (js ''es'')\<rparr>)
   = \<lparr>status = 200,
      content = Text_vtt (WEBVTT @ nl @ nl @ js ''00:00:05.000 --> 00:00:02.000'' @ nl @ js ''hola'')\<rparr>"
  by (simp add: handler_eval string_eval)

text \<open>
  C1, amended. In timed-document mode nothing reads a timestamp. When the request holds
  a URL with a video identifier and a language, the captions are found and both
  collaborators answer, the response is 200 with the cleaned payload, whatever the payload
  is; and a payload that is clean already (it begins with the header token, has no fence
  and no white space at its ends) is sent as it is, whatever the start and end times of
  its cues are.
\<close>

theorem generate_sends_unvalidated:
  "(youtubeUrl req = Some url \<and> videoIDMatch url = Some videoID
       \<and> language req = Some lang \<and> lang \<noteq> []
       \<and> getSubtitles videoID (js ''en'') = Inr (Some captions) \<and> captions \<noteq> []
       \<and> displayName lang = Inr languageName
       \<and> generateContent (generate_prompt languageName (transcript captions)) = Inr payload
       \<longrightarrow> fst (api_generate getSubtitles displayName generateContent req)
             = \<lparr>status = 200, content = Text_vtt (vttContent payload)\<rparr>)
   \<and> (startsWith payload WEBVTT \<and> \<not> js_includes payload fence \<and> trim payload = payload
       \<longrightarrow> vttContent payload = payload)"
proof (intro conjI impI)
  assume a: "youtubeUrl req = Some url \<and> videoIDMatch url = Some videoID
       \<and> language req = Some lang \<and> lang \<noteq> []
       \<and> getSubtitles videoID (js ''en'') = Inr (Some captions) \<and> captions \<noteq> []
       \<and> displayName lang = Inr languageName
       \<and> generateContent (generate_prompt languageName (transcript captions)) = Inr payload"
  then have "url \<noteq> []" by auto
  with a show "fst (api_generate getSubtitles displayName generateContent req)
      = \<lparr>status = 200, content = Text_vtt (vttContent payload)\<rparr>"
    by (simp add: api_generate_def falsy_def Let_def)
next
  assume "startsWith payload WEBVTT \<and> \<not> js_includes payload fence \<and> trim payload = payload"
  then show "vttContent payload = payload" by (simp add: vttContent_clean)
qed

text \<open>The theorem at a clean document whose second cue lies inside the first.\<close>

theorem generate_sends_unvalidated_witness:
  "fst (api_generate
         (\<lambda>videoID lang. Inr (Some [\<lparr>cap_text = js ''hello''\<rparr>]))
         (\<lambda>lang. Inr (js ''Spanish''))
         (\<lambda>prompt. Inr (WEBVTT @ nl @ nl @ js ''00:00:00.000 --> 00:00:04.000'' @ nl
                          @ js ''hola'' @ nl @ nl
                          @ js ''00:00:02.000 --> 00:00:03.000'' @ nl @ js ''mundo''))
         \<lparr>youtubeUrl = Some (js ''https://www.youtube.com/watch?v=abc&t=1''), videoId = None,
          language = Some (js ''es'')\<rparr>)
   = \<lparr>status = 200,
      content = Text_vtt (WEBVTT @ nl @ nl @ js ''00:00:00.000 --> 00:00:04.000'' @ nl
                          @ js ''hola'' @ nl @ nl
                          @ js ''00:00:02.000 --> 00:00:03.000'' @ nl @ js ''mundo'')\<rparr>"
  using generate_sends_unvalidated
    [where req = "\<lparr>youtubeUrl = Some (js ''https://www.youtube.com/watch?v=abc&t=1''),
                   videoId = None, language = Some (js ''es'')\<rparr>"
       and url = "js ''https://www.youtube.com/watch?v=abc&t=1''"
       and videoID = "js ''abc''"
       and lang = "js ''es''"
       and getSubtitles = "\<lambda>videoID lang. Inr (Some [\<lparr>cap_text = js ''hello''\<rparr>])"
       and captions = "[\<lparr>cap_text = js ''hello''\<rparr>]"
       and displayName = "\<lambda>lang. Inr (js ''Spanish'')"
       and languageName = "js ''Spanish''"
       and generateContent =
         "\<lambda>prompt. Inr (WEBVTT @ nl @ nl @ js ''00:00:00.000 --> 00:00:04.000'' @ nl
                          @ js ''hola'' @ nl @ nl
                          @ js ''00:00:02.000 --> 00:00:03.000'' @ nl @ js ''mundo'')"
       and payload = "WEBVTT @ nl @ nl @ js ''00:00:00.000 --> 00:00:04.000'' @ nl
                          @ js ''hola'' @ nl @ nl
                          @ js ''00:00:02.000 --> 00:00:03.000'' @ nl @ js ''mundo''"]
  by (simp add: handler_eval string_eval)

subsection \<open>C2: a zero or unknown duration\<close>

text \<open>
  C2 as stated fails. With \<^verbatim>\<open>lengthSeconds\<close> equal to \<^verbatim>\<open>"0"\<close> the quotient is
  computed and is \<open>Infinity\<close>, with an undefined \<^verbatim>\<open>lengthSeconds\<close> it is \<open>NaN\<close>, and the
  handler answers 200 with the cues.
\<close>

theorem zero_duration_divides:
  "fst (subtitlesWithTimestamps (js ''uno dos tres'') (parseInt10 (Some (js ''0'')))) = Infinity
   \<and> fst (subtitlesWithTimestamps (js ''uno dos tres'') (parseInt10 None)) = NaN
   \<and> api_subtitles (\<lambda>videoId. Inr (js ''Title'', Some (js ''0'')))
        (\<lambda>prompt. Inr (js ''uno dos tres''))
        \<lparr>youtubeUrl = None, videoId = Some (js ''abc''), language = Some (js ''es'')\<rparr>
     = (\<lparr>status = 200,
         content = Json_subtitles [\<lparr>cue_text = js ''uno dos tres'', cue_start = 0, cue_end = 2\<rparr>]\<rparr>,
        [GetInfo (js ''abc''), GenerateContent (subtitles_prompt (js ''es'') (js ''Title''))])"
  by (simp add: handler_eval synth_eval string_eval)

text \<open>
  C2, amended. \<^verbatim>\<open>/api/subtitles\<close> has no guard on the duration: it answers 200, 400
  or 500 and nothing else, and when the metadata and the translation arrive, the response
  is 200 and its cues are those of the loop over the words of the translated text,
  whatever \<^verbatim>\<open>lengthSeconds\<close> is. The quotient
  \<open>wordsPerSecond\<close> is computed all the same: for a zero duration it is the infinity
  with the sign of the zero (\<open>Infinity\<close> for \<open>+0\<close>, \<open>-Infinity\<close> for \<open>-0\<close>), for an
  unknown duration it is \<open>NaN\<close>, and nothing fails.
\<close>

theorem subtitles_without_duration_guard:
  "status (fst (api_subtitles getInfo generateContent req)) \<in> {200, 400, 500}
   \<and> (videoId req = Some vid \<and> vid \<noteq> [] \<and> language req = Some lang \<and> lang \<noteq> []
       \<and> getInfo vid = Inr (videoTitle, lengthSeconds)
       \<and> generateContent (subtitles_prompt lang videoTitle) = Inr translatedText
       \<longrightarrow> fst (api_subtitles getInfo generateContent req)
             = \<lparr>status = 200,
                content = Json_subtitles (cue_loop (split_ws translatedText) 0 0 [])\<rparr>)
   \<and> (parseInt10 lengthSeconds = Parsed Plus 0 \<longrightarrow>
         fst (subtitlesWithTimestamps translatedText (parseInt10 lengthSeconds)) = Infinity)
   \<and> (parseInt10 lengthSeconds = Parsed Minus 0 \<longrightarrow>
         fst (subtitlesWithTimestamps translatedText (parseInt10 lengthSeconds))
           = NegInfinity)
   \<and> (parseInt10 lengthSeconds = ParsedNaN \<longrightarrow>
         fst (subtitlesWithTimestamps translatedText (parseInt10 lengthSeconds)) = NaN)"
proof (intro conjI impI)
  show "status (fst (api_subtitles getInfo generateContent req)) \<in> {200, 400, 500}"
    by (simp add: api_subtitles_def Let_def split: sum.split prod.split)
next
  assume "videoId req = Some vid \<and> vid \<noteq> [] \<and> language req = Some lang \<and> lang \<noteq> []
       \<and> getInfo vid = Inr (videoTitle, lengthSeconds)
       \<and> generateContent (subtitles_prompt lang videoTitle) = Inr translatedText"
  then show "fst (api_subtitles getInfo generateContent req)
      = \<lparr>status = 200, content = Json_subtitles (cue_loop (split_ws translatedText) 0 0 [])\<rparr>"
    by (simp add: api_subtitles_def falsy_def Let_def subtitlesWithTimestamps_def)
next
  assume "parseInt10 lengthSeconds = Parsed Plus 0"
  then show "fst (subtitlesWithTimestamps translatedText (parseInt10 lengthSeconds)) = Infinity"
    using split_ws_nonempty [of translatedText]
    by (simp add: subtitlesWithTimestamps_def Let_def js_divide_def)
next
  assume "parseInt10 lengthSeconds = Parsed Minus 0"
  then show "fst (subtitlesWithTimestamps translatedText (parseInt10 lengthSeconds))
      = NegInfinity"
    using split_ws_nonempty [of translatedText]
    by (simp add: subtitlesWithTimestamps_def Let_def js_divide_def)
next
  assume "parseInt10 lengthSeconds = ParsedNaN"
  then show "fst (subtitlesWithTimestamps translatedText (parseInt10 lengthSeconds)) = NaN"
    by (simp add: subtitlesWithTimestamps_def Let_def js_divide_def)
qed

text \<open>
  The theorem at a duration that parses to zero, at one that parses to the negative zero
  and at an undefined duration.
\<close>

theorem subtitles_without_duration_guard_witness:
  "fst (api_subtitles (\<lambda>videoId. Inr (js ''Title'', Some (js '' 0 seconds'')))
        (\<lambda>prompt. Inr (js ''a b c d e f''))
        \<lparr>youtubeUrl = None, videoId = Some (js ''abc''), language = Some (js ''fr'')\<rparr>)
     = \<lparr>status = 200,
        content = Json_subtitles [\<lparr>cue_text = js ''a b c d e'', cue_start = 0, cue_end = 2\<rparr>,
                                  \<lparr>cue_text = js ''f'', cue_start = 2, cue_end = 4\<rparr>]\<rparr>
   \<and> parseInt10 (Some (js '' 0 seconds'')) = Parsed Plus 0
   \<and> fst (subtitlesWithTimestamps (js ''a b c d e f'') (parseInt10 (Some (js '' 0 seconds''))))
       = Infinity
   \<and> parseInt10 (Some (js ''-0'')) = Parsed Minus 0
   \<and> fst (subtitlesWithTimestamps (js ''a b c d e f'') (parseInt10 (Some (js ''-0''))))
       = NegInfinity
   \<and> fst (api_subtitles (\<lambda>videoId. Inr (js ''Title'', None))
        (\<lambda>prompt. Inr (js ''a b c d e f''))
        \<lparr>youtubeUrl = None, videoId = Some (js ''abc''), language = Some (js ''fr'')\<rparr>)
     = \<lparr>status = 200,
        content = Json_subtitles [\<lparr>cue_text = js ''a b c d e'', cue_start = 0, cue_end = 2\<rparr>,
                                  \<lparr>cue_text = js ''f'', cue_start = 2, cue_end = 4\<rparr>]\<rparr>
   \<and> fst (subtitlesWithTimestamps (js ''a b c d e f'') (parseInt10 None)) = NaN"
  using subtitles_without_duration_guard
    [where req = "\<lparr>youtubeUrl = None, videoId = Some (js ''abc''),
                   language = Some (js ''fr'')\<rparr>"
       and vid = "js ''abc''" and lang = "js ''fr''"
       and getInfo = "\<lambda>videoId. Inr (js ''Title'', Some (js '' 0 seconds''))"
       and videoTitle = "js ''Title''" and lengthSeconds = "Some (js '' 0 seconds'')"
       and generateContent = "\<lambda>prompt. Inr (js ''a b c d e f'')"
       and translatedText = "js ''a b c d e f''"]
    subtitles_without_duration_guard
    [where req = "\<lparr>youtubeUrl = None, videoId = Some (js ''abc''),
                   language = Some (js ''fr'')\<rparr>"
       and vid = "js ''abc''" and lang = "js ''fr''"
       and getInfo = "\<lambda>videoId. Inr (js ''Title'', None)"
       and videoTitle = "js ''Title''" and lengthSeconds = None
       and generateContent = "\<lambda>prompt. Inr (js ''a b c d e f'')"
       and translatedText = "js ''a b c d e f''"]
    subtitles_without_duration_guard
    [where req = "\<lparr>youtubeUrl = None, videoId = Some (js ''abc''),
                   language = Some (js ''fr'')\<rparr>"
       and vid = "js ''abc''" and lang = "js ''fr''"
       and getInfo = "\<lambda>videoId. Inr (js ''Title'', Some (js ''-0''))"
       and videoTitle = "js ''Title''" and lengthSeconds = "Some (js ''-0'')"
       and generateContent = "\<lambda>prompt. Inr (js ''a b c d e f'')"
       and translatedText = "js ''a b c d e f''"]
  by (simp add: handler_eval synth_eval string_eval)

subsection \<open>C3: the language tag is not checked against a set\<close>

text \<open>
  C3 as stated fails. The tag \<^verbatim>\<open>xx\<close> is in neither client's list, and both handlers
  make their external calls for it: \<^verbatim>\<open>/api/generate\<close> fetches the captions and requests
  the translation, \<^verbatim>\<open>/api/subtitles\<close> fetches the metadata and requests the translation;
  both answer 200.
\<close>

theorem unsupported_language_reaches_network:
  "js ''xx'' \<notin> set languages_generate_client
   \<and> js ''xx'' \<notin> set languages_subtitles_client
   \<and> api_generate
        (\<lambda>videoID lang. Inr (Some [\<lparr>cap_text = js ''hello''\<rparr>]))
        (\<lambda>lang. Inr lang)
        (\<lambda>prompt. Inr (js ''WEBVTT''))
        \<lparr>youtubeUrl = Some (js ''https://youtu.be/abc''), videoId = None,
         language = Some (js ''xx'')\<rparr>
     = (\<lparr>status = 200, content = Text_vtt (js ''WEBVTT'')\<rparr>,
        [GetSubtitles (js ''abc'') (js ''en''),
         GenerateContent (generate_prompt (js ''xx'') (js ''hello''))])
   \<and> api_subtitles (\<lambda>videoId. Inr (js ''Title'', Some (js ''10'')))
        (\<lambda>prompt. Inr (js ''uno dos tres''))
        \<lparr>youtubeUrl = None, videoId = Some (js ''abc''), language = Some (js ''xx'')\<rparr>
     = (\<lparr>status = 200,
         content = Json_subtitles [\<lparr>cue_text = js ''uno dos tres'', cue_start = 0, cue_end = 2\<rparr>]\<rparr>,
        [GetInfo (js ''abc''), GenerateContent (subtitles_prompt (js ''xx'') (js ''Title''))])"
  by (simp add: handler_eval synth_eval string_eval languages_generate_client_def
      languages_subtitles_client_def)

text \<open>
  C3, amended. The one check on the language before any external call is that the field
  is present and not empty: without it both handlers answer 400 and call nothing. For
  every other tag, in a client's list or not, \<^verbatim>\<open>/api/generate\<close> (given a URL that holds a
  video identifier) starts with the caption fetch and \<^verbatim>\<open>/api/subtitles\<close> (given a video
  identifier) starts with the metadata fetch.
\<close>

theorem only_empty_language_fails_fast:
  "(falsy (language req) \<longrightarrow>
      api_generate getSubtitles displayName generateContent req
        = (\<lparr>status = 400, content = Json_message msg_missing None\<rparr>, [])
      \<and> api_subtitles getInfo generateContent' req
        = (\<lparr>status = 400, content = Json_error msg_required\<rparr>, []))
   \<and> (\<not> falsy (language req) \<and> \<not> falsy (youtubeUrl req)
       \<and> videoIDMatch (the (youtubeUrl req)) = Some videoID \<longrightarrow>
      (\<exists>later. snd (api_generate getSubtitles displayName generateContent req)
         = GetSubtitles videoID (js ''en'') # later))
   \<and> (\<not> falsy (language req) \<and> \<not> falsy (videoId req) \<longrightarrow>
      (\<exists>later. snd (api_subtitles getInfo generateContent' req)
         = GetInfo (the (videoId req)) # later))"
  by (auto simp: api_generate_def api_subtitles_def Let_def split: sum.splits prod.splits)

text \<open>The theorem at an empty tag and at the tag \<^verbatim>\<open>xx\<close>.\<close>

theorem only_empty_language_fails_fast_witness:
  "api_generate (\<lambda>videoID lang. Inr None) (\<lambda>lang. Inr lang) (\<lambda>prompt. Inr [])
      \<lparr>youtubeUrl = Some (js ''https://youtu.be/abc''), videoId = Some (js ''abc''),
       language = Some []\<rparr>
     = (\<lparr>status = 400, content = Json_message msg_missing None\<rparr>, [])
   \<and> api_subtitles (\<lambda>videoId. Inl []) (\<lambda>prompt. Inr [])
      \<lparr>youtubeUrl = Some (js ''https://youtu.be/abc''), videoId = Some (js ''abc''),
       language = Some []\<rparr>
     = (\<lparr>status = 400, content = Json_error msg_required\<rparr>, [])
   \<and> (\<exists>later. snd (api_generate (\<lambda>videoID lang. Inr None) (\<lambda>lang. Inr lang) (\<lambda>prompt. Inr [])
          \<lparr>youtubeUrl = Some (js ''https://youtu.be/abc''), videoId = Some (js ''abc''),
           language = Some (js ''xx'')\<rparr>)
        = GetSubtitles (js ''abc'') (js ''en'') # later)
   \<and> (\<exists>later. snd (api_subtitles (\<lambda>videoId. Inl []) (\<lambda>prompt. Inr [])
          \<lparr>youtubeUrl = Some (js ''https://youtu.be/abc''), videoId = Some (js ''abc''),
           language = Some (js ''xx'')\<rparr>)
        = GetInfo (js ''abc'') # later)"
  using only_empty_language_fails_fast
    [of "\<lparr>youtubeUrl = Some (js ''https://youtu.be/abc''), videoId = Some (js ''abc''),
          language = Some []\<rparr>"
        "\<lambda>videoID lang. Inr None" "\<lambda>lang. Inr lang" "\<lambda>prompt. Inr []"
        "\<lambda>videoId. Inl []" "\<lambda>prompt. Inr []" "js ''abc''"]
    only_empty_language_fails_fast
    [of "\<lparr>youtubeUrl = Some (js ''https://youtu.be/abc''), videoId = Some (js ''abc''),
          language = Some (js ''xx'')\<rparr>"
        "\<lambda>videoID lang. Inr None" "\<lambda>lang. Inr lang" "\<lambda>prompt. Inr []"
        "\<lambda>videoId. Inl []" "\<lambda>prompt. Inr []" "js ''abc''"]
  by (simp add: falsy_def match_here_def id_run_def js_def)

subsection \<open>C4: the cues of the synthesizer do not overlap\<close>

text \<open>
  C4. In every cue list the synthesizer produces, whatever the translated text and the
  duration are, cue number \<open>i\<close> starts at \<open>2i\<close> and ends at \<open>2i + 2\<close>: each cue starts
  before it ends, and each cue ends exactly where the next one starts (so also not after
  it). The times are even integers far below \<open>2^53\<close>, which JavaScript numbers hold
  exactly.
\<close>

theorem cues_ordered:
  assumes "cs = snd (subtitlesWithTimestamps translatedText videoDuration)"
  shows "(\<forall>i<length cs. cue_start (cs ! i) < cue_end (cs ! i)
            \<and> cue_start (cs ! i) = 2 * int i \<and> cue_end (cs ! i) = 2 * int i + 2)
    \<and> (\<forall>i. Suc i < length cs \<longrightarrow>
            cue_end (cs ! i) \<le> cue_start (cs ! Suc i)
            \<and> cue_end (cs ! i) = cue_start (cs ! Suc i))"
proof -
  let ?cs = "cue_loop (split_ws translatedText) 0 0 []"
  have cs: "cs = ?cs"
    by (simp add: assms subtitlesWithTimestamps_def Let_def)
  have t: "\<And>k. k < length ?cs \<Longrightarrow>
      cue_start (?cs ! k) = 2 * int k \<and> cue_end (?cs ! k) = 2 * int k + 2"
    by (rule cue_loop_times) simp_all
  show ?thesis
    unfolding cs using t by (auto simp: Suc_lessD)
qed

text \<open>The theorem at a text of six words, which gives two cues.\<close>

theorem cues_ordered_witness:
  "length (snd (subtitlesWithTimestamps (js ''uno dos tres cuatro cinco seis'') (Parsed Plus 0))) = 2
   \<and> cue_start (snd (subtitlesWithTimestamps (js ''uno dos tres cuatro cinco seis'') (Parsed Plus 0)) ! 0)
       < cue_end (snd (subtitlesWithTimestamps (js ''uno dos tres cuatro cinco seis'') (Parsed Plus 0)) ! 0)
   \<and> cue_end (snd (subtitlesWithTimestamps (js ''uno dos tres cuatro cinco seis'') (Parsed Plus 0)) ! 0)
       = cue_start (snd (subtitlesWithTimestamps (js ''uno dos tres cuatro cinco seis'') (Parsed Plus 0))
                     ! Suc 0)"
  using cues_ordered
    [of "snd (subtitlesWithTimestamps (js ''uno dos tres cuatro cinco seis'') (Parsed Plus 0))"
        "js ''uno dos tres cuatro cinco seis''" "Parsed Plus 0"]
  by (simp add: synth_eval join_Nil join_Cons string_eval)

subsection \<open>C5: twenty-five words in ten seconds\<close>

text \<open>
  C5. The claim is that a translated text of exactly 25 words separated by white space,
  with a duration of 10 seconds, gives exactly five cues, from 0 to 2 up to 8 to 10, of
  five words each. The code breaks it when white space stands before the first word:
  \<^verbatim>\<open>split(/\s+/)\<close> then gives an empty string first, and the loop counts it as a
  word. The test \<^verbatim>\<open>subtitleText.trim() === ''\<close> of the loop covers the empty string
  that white space after the last word leaves, not this one. For the 25 words \<^verbatim>\<open>a\<close> to
  \<^verbatim>\<open>y\<close> after one space the code produces six cues: the first holds a space and four
  words, the last holds the one word left and runs from 10 to 12.
\<close>

theorem leading_white_space_six_cues:
  "length (split_ws (sp @ js ''a b c d e f g h i j k l m n o p q r s t u v w x y'')) = 26
   \<and> snd (subtitlesWithTimestamps
          (sp @ js ''a b c d e f g h i j k l m n o p q r s t u v w x y'')
          (parseInt10 (Some (js ''10''))))
     = [\<lparr>cue_text = js '' a b c d'', cue_start = 0, cue_end = 2\<rparr>,
        \<lparr>cue_text = js ''e f g h i'', cue_start = 2, cue_end = 4\<rparr>,
        \<lparr>cue_text = js ''j k l m n'', cue_start = 4, cue_end = 6\<rparr>,
        \<lparr>cue_text = js ''o p q r s'', cue_start = 6, cue_end = 8\<rparr>,
        \<lparr>cue_text = js ''t u v w x'', cue_start = 8, cue_end = 10\<rparr>,
        \<lparr>cue_text = js ''y'', cue_start = 10, cue_end = 12\<rparr>]"
  by (simp add: synth_eval join_Nil join_Cons string_eval)

text \<open>
  Where the text begins with a word, the scenario holds. The translated text is 25 words:
  a first word and 24 more, each after a run of white space; a word is not empty and has
  no white space in it; white space may follow the last word. With a duration of 10
  seconds the synthesizer produces exactly five cues, from 0 to 2, 2 to 4, 4 to 6, 6 to 8
  and 8 to 10, and the text of each is the next five words in their order, joined by
  single spaces.
\<close>

lemma twenty_five_words:
  assumes "length sws = 24"
    and "firstWord \<noteq> []" "\<forall>c\<in>set firstWord. \<not> is_space c"
    and "\<forall>(s, w)\<in>set sws. s \<noteq> [] \<and> (\<forall>c\<in>set s. is_space c) \<and> w \<noteq> [] \<and> (\<forall>c\<in>set w. \<not> is_space c)"
    and "\<forall>c\<in>set trailing. is_space c"
    and "translatedText = firstWord @ concat (map (\<lambda>(s, w). s @ w) sws) @ trailing"
    and "ws = firstWord # map snd sws"
  shows "snd (subtitlesWithTimestamps translatedText (Parsed Plus 10)) =
    [\<lparr>cue_text = join (take 5 ws) sp, cue_start = 0, cue_end = 2\<rparr>,
     \<lparr>cue_text = join (take 5 (drop 5 ws)) sp, cue_start = 2, cue_end = 4\<rparr>,
     \<lparr>cue_text = join (take 5 (drop 10 ws)) sp, cue_start = 4, cue_end = 6\<rparr>,
     \<lparr>cue_text = join (take 5 (drop 15 ws)) sp, cue_start = 6, cue_end = 8\<rparr>,
     \<lparr>cue_text = join (take 5 (drop 20 ws)) sp, cue_start = 8, cue_end = 10\<rparr>]"
proof -
  let ?extra = "if trailing = [] then [] else [[]] :: jsstring list"
  have sp: "split_ws translatedText = ws @ ?extra"
    unfolding assms(6,7) by (rule split_ws_separated [OF assms(3,4,5)])
  have len: "length ws = 25" using assms(1,7) by simp
  have good: "\<forall>w\<in>set ws. w \<noteq> [] \<and> (\<forall>c\<in>set w. \<not> is_space c)"
    using assms(2,3,4,7) by auto
  have "?extra = [] \<or> ?extra = [[]]" by simp
  with len good have "cue_loop (ws @ ?extra) 0 0 [] =
    [\<lparr>cue_text = join (take 5 ws) sp, cue_start = 0, cue_end = 2\<rparr>,
     \<lparr>cue_text = join (take 5 (drop 5 ws)) sp, cue_start = 2, cue_end = 4\<rparr>,
     \<lparr>cue_text = join (take 5 (drop 10 ws)) sp, cue_start = 4, cue_end = 6\<rparr>,
     \<lparr>cue_text = join (take 5 (drop 15 ws)) sp, cue_start = 6, cue_end = 8\<rparr>,
     \<lparr>cue_text = join (take 5 (drop 20 ws)) sp, cue_start = 8, cue_end = 10\<rparr>]"
    by (rule cue_loop_25)
  then show ?thesis
    by (simp only: subtitlesWithTimestamps_def Let_def snd_conv sp)
qed

text \<open>The lemma at the words \<^verbatim>\<open>a\<close> to \<^verbatim>\<open>y\<close>, with a line feed at the end.\<close>

lemma twenty_five_words_example:
  "snd (subtitlesWithTimestamps
          (js ''a b c d e f g h i j k l m n o p q r s t u v w x y'' @ nl) (Parsed Plus 10))
   = [\<lparr>cue_text = js ''a b c d e'', cue_start = 0, cue_end = 2\<rparr>,
      \<lparr>cue_text = js ''f g h i j'', cue_start = 2, cue_end = 4\<rparr>,
      \<lparr>cue_text = js ''k l m n o'', cue_start = 4, cue_end = 6\<rparr>,
      \<lparr>cue_text = js ''p q r s t'', cue_start = 6, cue_end = 8\<rparr>,
      \<lparr>cue_text = js ''u v w x y'', cue_start = 8, cue_end = 10\<rparr>]"
  using twenty_five_words
    [where firstWord = "js ''a''"
       and sws = "map (\<lambda>w. (sp, w))
          [js ''b'', js ''c'', js ''d'', js ''e'', js ''f'', js ''g'', js ''h'', js ''i'',
           js ''j'', js ''k'', js ''l'', js ''m'', js ''n'', js ''o'', js ''p'', js ''q'',
           js ''r'', js ''s'', js ''t'', js ''u'', js ''v'', js ''w'', js ''x'', js ''y'']"
       and trailing = nl
       and translatedText = "js ''a b c d e f g h i j k l m n o p q r s t u v w x y'' @ nl"
       and ws = "[js ''a'', js ''b'', js ''c'', js ''d'', js ''e'', js ''f'', js ''g'',
           js ''h'', js ''i'', js ''j'', js ''k'', js ''l'', js ''m'', js ''n'', js ''o'',
           js ''p'', js ''q'', js ''r'', js ''s'', js ''t'', js ''u'', js ''v'', js ''w'',
           js ''x'', js ''y'']"]
  by (simp add: synth_eval join_Nil join_Cons string_eval)

subsection \<open>C6: no captions, no translation\<close>

text \<open>
  C6. When the caption source returns no array or an empty one for the video,
  \<^verbatim>\<open>/api/generate\<close> answers 404 with its message, and the caption fetch is the only
  external call of the run: no translation is requested.
\<close>

theorem no_captions_no_translation:
  assumes "youtubeUrl req = Some url" "videoIDMatch url = Some videoID"
    and "language req = Some lang" "lang \<noteq> []"
    and "getSubtitles videoID (js ''en'') = Inr None
         \<or> getSubtitles videoID (js ''en'') = Inr (Some [])"
  shows "api_generate getSubtitles displayName generateContent req
      = (\<lparr>status = 404, content = Json_message msg_no_subtitles None\<rparr>,
         [GetSubtitles videoID (js ''en'')])
    \<and> (\<forall>prompt. GenerateContent prompt
          \<notin> set (snd (api_generate getSubtitles displayName generateContent req)))"
proof -
  from assms(2) have "url \<noteq> []" by auto
  with assms have "api_generate getSubtitles displayName generateContent req
      = (\<lparr>status = 404, content = Json_message msg_no_subtitles None\<rparr>,
         [GetSubtitles videoID (js ''en'')])"
    by (auto simp: api_generate_def falsy_def)
  then show ?thesis by simp
qed

text \<open>The theorem at an empty array and at no array.\<close>

theorem no_captions_no_translation_witness:
  "api_generate (\<lambda>videoID lang. Inr (Some [])) (\<lambda>lang. Inr (js ''Spanish''))
      (\<lambda>prompt. Inr (js ''WEBVTT''))
      \<lparr>youtubeUrl = Some (js ''https://www.youtube.com/watch?v=abc''), videoId = None,
       language = Some (js ''es'')\<rparr>
     = (\<lparr>status = 404, content = Json_message msg_no_subtitles None\<rparr>,
        [GetSubtitles (js ''abc'') (js ''en'')])
   \<and> api_generate (\<lambda>videoID lang. Inr None) (\<lambda>lang. Inr (js ''Spanish''))
      (\<lambda>prompt. Inr (js ''WEBVTT''))
      \<lparr>youtubeUrl = Some (js ''https://www.youtube.com/watch?v=abc''), videoId = None,
       language = Some (js ''es'')\<rparr>
     = (\<lparr>status = 404, content = Json_message msg_no_subtitles None\<rparr>,
        [GetSubtitles (js ''abc'') (js ''en'')])"
  using no_captions_no_translation
    [of "\<lparr>youtubeUrl = Some (js ''https://www.youtube.com/watch?v=abc''), videoId = None,
          language = Some (js ''es'')\<rparr>"
        "js ''https://www.youtube.com/watch?v=abc''" "js ''abc''" "js ''es''"
        "\<lambda>videoID lang. Inr (Some [])" "\<lambda>lang. Inr (js ''Spanish'')"
        "\<lambda>prompt. Inr (js ''WEBVTT'')"]
    no_captions_no_translation
    [of "\<lparr>youtubeUrl = Some (js ''https://www.youtube.com/watch?v=abc''), videoId = None,
          language = Some (js ''es'')\<rparr>"
        "js ''https://www.youtube.com/watch?v=abc''" "js ''abc''" "js ''es''"
        "\<lambda>videoID lang. Inr None" "\<lambda>lang. Inr (js ''Spanish'')"
        "\<lambda>prompt. Inr (js ''WEBVTT'')"]
  by (simp add: match_here_def id_run_def js_def)

subsection \<open>C7: the header and the fences of the cleaned document\<close>

text \<open>
  C7. Whatever the collaborator returned, the cleaned document begins with the header
  token \<^verbatim>\<open>WEBVTT\<close> and contains no fence \<^verbatim>\<open>```\<close>. The clean-up is a total
  function: it has no failure, so no payload is rejected. When the payload, with the
  fences removed and the outer white space trimmed, does not begin with the token, the
  result is the token, two line feeds (the header line and a blank line) and that text;
  otherwise it is that text.
\<close>

theorem vttContent_header:
  "startsWith (vttContent raw) WEBVTT
   \<and> \<not> js_includes (vttContent raw) fence
   \<and> (\<not> startsWith (trim (replace_all fence [] (replace_all fence_vtt [] raw))) WEBVTT
        \<longrightarrow> vttContent raw
            = WEBVTT @ nl @ nl @ trim (replace_all fence [] (replace_all fence_vtt [] raw)))
   \<and> (startsWith (trim (replace_all fence [] (replace_all fence_vtt [] raw))) WEBVTT
        \<longrightarrow> vttContent raw = trim (replace_all fence [] (replace_all fence_vtt [] raw)))"
  using vttContent_no_fence [of raw]
  by (simp add: vttContent_def Let_def startsWith_def)

text \<open>
  The theorem at a fenced payload without header (the fences go, the header is put in
  front) and at a payload with the header and a line feed at its end.
\<close>

theorem vttContent_header_witness:
  "startsWith (vttContent (fence_vtt @ js ''00:00:00.000 --> 00:00:02.000'' @ nl
                            @ js ''hola'' @ nl @ fence)) WEBVTT
   \<and> \<not> js_includes (vttContent (fence_vtt @ js ''00:00:00.000 --> 00:00:02.000'' @ nl
                                  @ js ''hola'' @ nl @ fence)) fence
   \<and> \<not> startsWith (trim (replace_all fence [] (replace_all fence_vtt []
          (fence_vtt @ js ''00:00:00.000 --> 00:00:02.000'' @ nl @ js ''hola'' @ nl
           @ fence)))) WEBVTT
   \<and> vttContent (fence_vtt @ js ''00:00:00.000 --> 00:00:02.000'' @ nl @ js ''hola'' @ nl
                  @ fence)
       = WEBVTT @ nl @ nl @ js ''00:00:00.000 --> 00:00:02.000'' @ nl @ js ''hola''
   \<and> startsWith (trim (replace_all fence [] (replace_all fence_vtt []
          (WEBVTT @ nl @ nl @ js ''00:00:00.000 --> 00:00:02.000'' @ nl @ js ''hola'' @ nl))))
        WEBVTT
   \<and> vttContent (WEBVTT @ nl @ nl @ js ''00:00:00.000 --> 00:00:02.000'' @ nl @ js ''hola''
                  @ nl)
       = WEBVTT @ nl @ nl @ js ''00:00:00.000 --> 00:00:02.000'' @ nl @ js ''hola''"
  using vttContent_header
    [of "fence_vtt @ js ''00:00:00.000 --> 00:00:02.000'' @ nl @ js ''hola'' @ nl @ fence"]
    vttContent_header
    [of "WEBVTT @ nl @ nl @ js ''00:00:00.000 --> 00:00:02.000'' @ nl @ js ''hola'' @ nl"]
  by (simp add: string_eval)

subsection \<open>C8: the transcript\<close>

text \<open>
  C8. For a caption array that is not empty, the transcript is what the specification
  describes, the texts in their order with one space between neighbours. Every text
  stands in it unchanged: the text of fragment \<open>i\<close> comes right after the transcript
  of the fragments before it and, unless it is the first, one space. Nothing else is in
  the transcript: its length is the sum of the lengths of the texts plus one for each
  gap.
\<close>

theorem transcript_space_joined:
  assumes "captions \<noteq> []"
  shows "transcript captions = spec_space_joined (map cap_text captions)
    \<and> (\<forall>i<length captions. \<exists>rest.
          transcript captions
            = transcript (take i captions) @ (if i = 0 then [] else sp)
              @ cap_text (captions ! i) @ rest)
    \<and> length (transcript captions) + 1
        = sum_list (map (\<lambda>c. length (cap_text c)) captions) + length captions"
proof (intro conjI allI impI)
  from assms obtain c cs where c: "captions = c # cs" by (cases captions) auto
  show "transcript captions = spec_space_joined (map cap_text captions)"
    by (simp add: c transcript_def join_Cons spec_space_joined_Cons)
  show "length (transcript captions) + 1
        = sum_list (map (\<lambda>c. length (cap_text c)) captions) + length captions"
    using length_join [of "map cap_text captions" sp] assms
    by (simp add: transcript_def sp_def comp_def)
next
  fix i assume i: "i < length captions"
  have "map cap_text captions = map cap_text (take i captions @ captions ! i # drop (Suc i) captions)"
    using id_take_nth_drop [OF i] by simp
  then have split: "map cap_text captions
      = map cap_text (take i captions) @ map cap_text (captions ! i # drop (Suc i) captions)"
    by (simp only: map_append)
  show "\<exists>rest. transcript captions
            = transcript (take i captions) @ (if i = 0 then [] else sp)
              @ cap_text (captions ! i) @ rest"
  proof (cases "i = 0")
    case True
    with i obtain c cs where "captions = c # cs" by (cases captions) auto
    with True show ?thesis by (simp add: transcript_def join_Cons join_Nil)
  next
    case False
    with i have ne: "map cap_text (take i captions) \<noteq> []" by auto
    have "transcript captions
        = join (map cap_text (take i captions) @ map cap_text (captions ! i # drop (Suc i) captions)) sp"
      unfolding transcript_def by (simp only: split)
    also have "\<dots> = transcript (take i captions) @ sp @ cap_text (captions ! i)
        @ concat (map ((@) sp) (map cap_text (drop (Suc i) captions)))"
      by (simp add: join_append [OF ne] transcript_def)
    finally show ?thesis using False by auto
  qed
qed

text \<open>The theorem at two fragments.\<close>

theorem transcript_space_joined_witness:
  "transcript [\<lparr>cap_text = js ''Hello,''\<rparr>,
               \<lparr>cap_text = js ''World!''\<rparr>]
     = js ''Hello, World!''
   \<and> spec_space_joined [js ''Hello,'', js ''World!''] = js ''Hello, World!''
   \<and> length (transcript [\<lparr>cap_text = js ''Hello,''\<rparr>,
               \<lparr>cap_text = js ''World!''\<rparr>]) = 13"
  using transcript_space_joined
    [of "[\<lparr>cap_text = js ''Hello,''\<rparr>,
          \<lparr>cap_text = js ''World!''\<rparr>]"]
  by (simp add: transcript_def join_Cons string_eval)

subsection \<open>C10: every fence is deleted\<close>

text \<open>
  C10. The second replacement deletes the fence wherever it stands: a fence put at any
  position of any text leaves the result of the replacement as it is without the fence.
  So the cleaned document never contains three backticks in a row, and backticks that
  belong to a cue's text are deleted as well: in the document below, the cue text
  \<^verbatim>\<open>use ```x``` here\<close> becomes \<^verbatim>\<open>use x here\<close>.
\<close>

theorem fence_deleted_everywhere:
  "replace_all fence [] (a @ fence @ t) = replace_all fence [] (a @ t)
   \<and> \<not> js_includes (vttContent raw) fence
   \<and> vttContent (WEBVTT @ nl @ nl @ js ''00:00:00.000 --> 00:00:02.000'' @ nl
                  @ js ''use '' @ fence @ js ''x'' @ fence @ js '' here'')
       = WEBVTT @ nl @ nl @ js ''00:00:00.000 --> 00:00:02.000'' @ nl @ js ''use x here''"
proof -
  have "replace_all fence [] (a @ fence @ t) = replace_all fence [] (a @ t)"
    unfolding fence_def by (rule replace_delete)
  moreover have "\<not> js_includes (vttContent raw) fence"
    by (rule vttContent_no_fence)
  moreover have
    "vttContent (WEBVTT @ nl @ nl @ js ''00:00:00.000 --> 00:00:02.000'' @ nl
                 @ js ''use '' @ fence @ js ''x'' @ fence @ js '' here'')
     = WEBVTT @ nl @ nl @ js ''00:00:00.000 --> 00:00:02.000'' @ nl @ js ''use x here''"
    by (simp add: string_eval)
  ultimately show ?thesis by blast
qed

end
